theory Spec2Isabelle
  imports Complex_Main "HOL-Library.Word"
begin

unbundle bit_operations_syntax

section \<open>Python values\<close>

text \<open>
  The exceptions the program can raise: \<open>ValueError\<close> is raised by the constructor of
  \<open>InteractionPoint\<close>; the others come from list indexing, dictionary access and item
  assignment.
\<close>

datatype error = ValueError | IndexError | KeyError | TypeError

text \<open>
  The values that \<open>json.dumps\<close> accepts. A \<open>str\<close> is a \<open>string\<close> whose characters are
  the code points below 256. A finite \<open>float\<close> is carried by its exact value together
  with its \<open>repr\<close>, the text \<open>json.dumps\<close> writes for it; the model computes neither
  from the other. A \<open>dict\<close> has \<open>str\<close> keys and keeps its items in insertion order,
  each key once.
\<close>

datatype pyval =
    PNone
  | PBool bool
  | PInt int
  | PFloat rat string
  | PStr string
  | PList "pyval list"
  | PTuple "pyval list"
  | PDict "(string \<times> pyval) list"

type_synonym dict = "(string \<times> pyval) list"

subsection \<open>Dictionaries and lists\<close>

text \<open>\<open>d[k]\<close>: raises \<open>KeyError\<close> when the key is absent.\<close>

definition dict_get :: "dict \<Rightarrow> string \<Rightarrow> error + pyval" where
  "dict_get d k = (case map_of d k of None \<Rightarrow> Inl KeyError | Some v \<Rightarrow> Inr v)"

text \<open>\<open>d[k] = v\<close>: replaces the value in place, or adds the key at the end.\<close>

fun dict_set :: "string \<Rightarrow> pyval \<Rightarrow> dict \<Rightarrow> dict" where
  "dict_set k v [] = [(k, v)]"
| "dict_set k v (p # d) = (if fst p = k then (k, v) # d else p # dict_set k v d)"

text \<open>\<open>del d[k]\<close>: raises \<open>KeyError\<close> when the key is absent.\<close>

definition dict_del :: "string \<Rightarrow> dict \<Rightarrow> error + dict" where
  "dict_del k d = (case map_of d k of None \<Rightarrow> Inl KeyError
                   | Some v \<Rightarrow> Inr (filter (\<lambda>p. fst p \<noteq> k) d))"

text \<open>\<open>xs[i]\<close>: a negative index counts from the end; out of range raises \<open>IndexError\<close>.\<close>

definition list_get :: "'a list \<Rightarrow> int \<Rightarrow> error + 'a" where
  "list_get xs i =
     (if 0 \<le> i \<and> i < int (length xs) then Inr (xs ! nat i)
      else if i < 0 \<and> - int (length xs) \<le> i then Inr (xs ! nat (int (length xs) + i))
      else Inl IndexError)"

subsection \<open>Equality\<close>

text \<open>
  Python's \<open>==\<close>: \<open>bool\<close>, \<open>int\<close> and \<open>float\<close> compare by numeric value; a list equals
  only a list and a tuple only a tuple, item by item; two dictionaries are equal when
  they have as many items and every key of the first has an equal value in the second.
\<close>

fun py_num :: "pyval \<Rightarrow> rat option" where
  "py_num (PBool b) = Some (if b then 1 else 0)"
| "py_num (PInt n) = Some (of_int n)"
| "py_num (PFloat x r) = Some x"
| "py_num v = None"

fun py_eq :: "pyval \<Rightarrow> pyval \<Rightarrow> bool"
  and py_eq_list :: "pyval list \<Rightarrow> pyval list \<Rightarrow> bool"
  and py_eq_items :: "dict \<Rightarrow> dict \<Rightarrow> bool" where
  "py_eq PNone w = (w = PNone)"
| "py_eq (PBool b) w = (py_num w = Some (if b then 1 else 0))"
| "py_eq (PInt n) w = (py_num w = Some (of_int n))"
| "py_eq (PFloat x r) w = (py_num w = Some x)"
| "py_eq (PStr s) w = (w = PStr s)"
| "py_eq (PList xs) w = (case w of PList ys \<Rightarrow> py_eq_list xs ys | _ \<Rightarrow> False)"
| "py_eq (PTuple xs) w = (case w of PTuple ys \<Rightarrow> py_eq_list xs ys | _ \<Rightarrow> False)"
| "py_eq (PDict d) w =
     (case w of PDict d' \<Rightarrow> length d = length d' \<and> py_eq_items d d' | _ \<Rightarrow> False)"
| "py_eq_list [] ys = (ys = [])"
| "py_eq_list (x # xs) ys =
     (case ys of [] \<Rightarrow> False | y # ys' \<Rightarrow> py_eq x y \<and> py_eq_list xs ys')"
| "py_eq_items [] d' = True"
| "py_eq_items (p # d) d' =
     (case map_of d' (fst p) of None \<Rightarrow> False
      | Some w \<Rightarrow> py_eq (snd p) w \<and> py_eq_items d d')"

definition py_ne :: "pyval \<Rightarrow> pyval \<Rightarrow> bool" where
  "py_ne v w = (\<not> py_eq v w)"

section \<open>json.dumps(obj, sort_keys=True)\<close>

text \<open>Decimal digits of an \<open>int\<close>, as \<open>repr\<close> writes them.\<close>

definition digit_char :: "nat \<Rightarrow> char" where
  "digit_char d = char_of (48 + d)"

fun nat_repr :: "nat \<Rightarrow> string" where
  "nat_repr n = (if n < 10 then [digit_char n] else nat_repr (n div 10) @ [digit_char (n mod 10)])"

declare nat_repr.simps [simp del]

definition int_repr :: "int \<Rightarrow> string" where
  "int_repr i = (if i < 0 then CHR ''-'' # nat_repr (nat (- i)) else nat_repr (nat i))"

text \<open>
  A string between double quotes with \<open>ensure_ascii\<close>: the quote and the backslash get
  a backslash; backspace, tab, newline, form feed and carriage return have their short
  forms; every other character outside the range from space to tilde is written
  \<open>\u00xx\<close> in lower-case hexadecimal.
\<close>

definition hex_digit :: "nat \<Rightarrow> char" where
  "hex_digit d = (if d < 10 then char_of (48 + d) else char_of (87 + d))"

definition json_escape_char :: "char \<Rightarrow> string" where
  "json_escape_char c =
     (let n = (of_char c :: nat) in
      if n = 34 then [CHR 0x5C, CHR 0x22]
      else if n = 92 then [CHR 0x5C, CHR 0x5C]
      else if n = 10 then [CHR 0x5C, CHR ''n'']
      else if n = 13 then [CHR 0x5C, CHR ''r'']
      else if n = 9 then [CHR 0x5C, CHR ''t'']
      else if n = 8 then [CHR 0x5C, CHR ''b'']
      else if n = 12 then [CHR 0x5C, CHR ''f'']
      else if 32 \<le> n \<and> n \<le> 126 then [c]
      else [CHR 0x5C, CHR ''u'', CHR ''0'', CHR ''0'', hex_digit (n div 16), hex_digit (n mod 16)])"

definition json_str :: "string \<Rightarrow> string" where
  "json_str s = CHR 0x22 # concat (map json_escape_char s) @ [CHR 0x22]"

text \<open>Items are written in the order of their keys, compared code point by code point.\<close>

fun str_le :: "string \<Rightarrow> string \<Rightarrow> bool" where
  "str_le [] t = True"
| "str_le (c # s) [] = False"
| "str_le (c # s) (d # t) =
     ((of_char c :: nat) < of_char d \<or> (c = d \<and> str_le s t))"

fun insort_item :: "string \<times> 'a \<Rightarrow> (string \<times> 'a) list \<Rightarrow> (string \<times> 'a) list" where
  "insort_item p [] = [p]"
| "insort_item p (q # qs) =
     (if str_le (fst p) (fst q) then p # q # qs else q # insort_item p qs)"

definition sort_items :: "(string \<times> 'a) list \<Rightarrow> (string \<times> 'a) list" where
  "sort_items d = foldr insort_item d []"

fun join :: "string \<Rightarrow> string list \<Rightarrow> string" where
  "join sep [] = []"
| "join sep [s] = s"
| "join sep (s # t # ts) = s @ sep @ join sep (t # ts)"

definition json_item :: "string \<times> string \<Rightarrow> string" where
  "json_item p = json_str (fst p) @ '': '' @ snd p"

fun json_dumps :: "pyval \<Rightarrow> string" where
  "json_dumps PNone = ''null''"
| "json_dumps (PBool b) = (if b then ''true'' else ''false'')"
| "json_dumps (PInt i) = int_repr i"
| "json_dumps (PFloat x r) = r"
| "json_dumps (PStr s) = json_str s"
| "json_dumps (PList xs) = ''['' @ join '', '' (map json_dumps xs) @ '']''"
| "json_dumps (PTuple xs) = ''['' @ join '', '' (map json_dumps xs) @ '']''"
| "json_dumps (PDict d) =
     ''{'' @ join '', '' (map json_item (sort_items (map (map_prod id json_dumps) d))) @ ''}''"

section \<open>hashlib.sha256(data).hexdigest()\<close>

text \<open>
  SHA-256 as FIPS 180-4 defines it, on the bytes of an ASCII string (what \<open>json.dumps\<close>
  returns, so that \<open>encode()\<close> changes nothing), with the digest in lower-case
  hexadecimal.
\<close>

type_synonym w32 = "32 word"

definition Ch :: "w32 \<Rightarrow> w32 \<Rightarrow> w32 \<Rightarrow> w32" where
  "Ch x y z = (x AND y) XOR (NOT x AND z)"

definition Maj :: "w32 \<Rightarrow> w32 \<Rightarrow> w32 \<Rightarrow> w32" where
  "Maj x y z = (x AND y) XOR (x AND z) XOR (y AND z)"

definition big_sigma0 :: "w32 \<Rightarrow> w32" where
  "big_sigma0 x = word_rotr 2 x XOR word_rotr 13 x XOR word_rotr 22 x"

definition big_sigma1 :: "w32 \<Rightarrow> w32" where
  "big_sigma1 x = word_rotr 6 x XOR word_rotr 11 x XOR word_rotr 25 x"

definition small_sigma0 :: "w32 \<Rightarrow> w32" where
  "small_sigma0 x = word_rotr 7 x XOR word_rotr 18 x XOR drop_bit 3 x"

definition small_sigma1 :: "w32 \<Rightarrow> w32" where
  "small_sigma1 x = word_rotr 17 x XOR word_rotr 19 x XOR drop_bit 10 x"

definition sha256_K :: "w32 list" where
  "sha256_K =
   [0x428A2F98, 0x71374491, 0xB5C0FBCF, 0xE9B5DBA5, 0x3956C25B, 0x59F111F1, 0x923F82A4, 0xAB1C5ED5,
    0xD807AA98, 0x12835B01, 0x243185BE, 0x550C7DC3, 0x72BE5D74, 0x80DEB1FE, 0x9BDC06A7, 0xC19BF174,
    0xE49B69C1, 0xEFBE4786, 0x0FC19DC6, 0x240CA1CC, 0x2DE92C6F, 0x4A7484AA, 0x5CB0A9DC, 0x76F988DA,
    0x983E5152, 0xA831C66D, 0xB00327C8, 0xBF597FC7, 0xC6E00BF3, 0xD5A79147, 0x06CA6351, 0x14292967,
    0x27B70A85, 0x2E1B2138, 0x4D2C6DFC, 0x53380D13, 0x650A7354, 0x766A0ABB, 0x81C2C92E, 0x92722C85,
    0xA2BFE8A1, 0xA81A664B, 0xC24B8B70, 0xC76C51A3, 0xD192E819, 0xD6990624, 0xF40E3585, 0x106AA070,
    0x19A4C116, 0x1E376C08, 0x2748774C, 0x34B0BCB5, 0x391C0CB3, 0x4ED8AA4A, 0x5B9CCA4F, 0x682E6FF3,
    0x748F82EE, 0x78A5636F, 0x84C87814, 0x8CC70208, 0x90BEFFFA, 0xA4506CEB, 0xBEF9A3F7, 0xC67178F2]"

definition sha256_H0 :: "w32 list" where
  "sha256_H0 = [0x6A09E667, 0xBB67AE85, 0x3C6EF372, 0xA54FF53A,
                0x510E527F, 0x9B05688C, 0x1F83D9AB, 0x5BE0CD19]"

text \<open>Padding: the byte 0x80, zero bytes up to 56 modulo 64, the bit length on 8 bytes.\<close>

fun be_bytes :: "nat \<Rightarrow> nat \<Rightarrow> nat list" where
  "be_bytes 0 n = []"
| "be_bytes (Suc k) n = be_bytes k (n div 256) @ [n mod 256]"

definition sha256_pad :: "nat list \<Rightarrow> nat list" where
  "sha256_pad m =
     m @ [128] @ replicate ((119 - length m mod 64) mod 64) 0 @ be_bytes 8 (8 * length m)"

fun be_words :: "nat list \<Rightarrow> w32 list" where
  "be_words (a # b # c # d # bs) =
     word_of_nat (((a * 256 + b) * 256 + c) * 256 + d) # be_words bs"
| "be_words bs = []"

text \<open>The message schedule: 48 more words after the 16 of the block.\<close>

fun schedule :: "nat \<Rightarrow> w32 list \<Rightarrow> w32 list" where
  "schedule 0 w = w"
| "schedule (Suc n) w =
     schedule n (w @ [small_sigma1 (w ! (length w - 2)) + w ! (length w - 7)
                      + small_sigma0 (w ! (length w - 15)) + w ! (length w - 16)])"

definition sha256_round :: "w32 list \<Rightarrow> w32 \<times> w32 \<Rightarrow> w32 list" where
  "sha256_round s kw =
     (let a = s ! 0; b = s ! 1; c = s ! 2; d = s ! 3;
          e = s ! 4; f = s ! 5; g = s ! 6; h = s ! 7;
          t1 = h + big_sigma1 e + Ch e f g + fst kw + snd kw;
          t2 = big_sigma0 a + Maj a b c
      in [t1 + t2, a, b, c, d + t1, e, f, g])"

definition sha256_compress :: "w32 list \<Rightarrow> w32 list \<Rightarrow> w32 list" where
  "sha256_compress hs block =
     map2 (+) hs (foldl sha256_round hs (zip sha256_K (schedule 48 block)))"

fun chunks :: "nat \<Rightarrow> 'a list \<Rightarrow> 'a list list" where
  "chunks 0 xs = []"
| "chunks (Suc n) xs = (if length xs \<le> Suc n then [xs]
                        else take (Suc n) xs # chunks (Suc n) (drop (Suc n) xs))"

fun hex_nat :: "nat \<Rightarrow> nat \<Rightarrow> string" where
  "hex_nat 0 n = []"
| "hex_nat (Suc k) n = hex_nat k (n div 16) @ [hex_digit (n mod 16)]"

definition hex_word :: "w32 \<Rightarrow> string" where
  "hex_word w = hex_nat 8 (unat w)"

definition sha256_hexdigest :: "string \<Rightarrow> string" where
  "sha256_hexdigest s =
     concat (map hex_word
       (foldl sha256_compress sha256_H0
          (chunks 16 (be_words (sha256_pad (map of_char s))))))"

section \<open>InteractionPoint\<close>

text \<open>
  The object built by \<open>InteractionPoint.__init__\<close>. The constructor reads the clock
  (\<open>time.time()\<close>); the model takes that reading, a float, as its first argument.
\<close>

record InteractionPoint =
  timestamp :: "rat \<times> string"
  arousal :: int
  valence :: int
  impact_scope :: int
  description :: string
  source_text :: string
  coordinates :: "int \<times> int \<times> int"

definition InteractionPoint_init ::
  "rat \<times> string \<Rightarrow> int \<Rightarrow> int \<Rightarrow> int \<Rightarrow> string \<Rightarrow> string \<Rightarrow> error + InteractionPoint" where
  "InteractionPoint_init now a v s d src =
     (if \<not> (0 \<le> a \<and> a \<le> 100 \<and> -50 \<le> v \<and> v \<le> 50 \<and> s \<ge> 1) then Inl ValueError
      else Inr \<lparr>timestamp = now, arousal = a, valence = v, impact_scope = s,
                description = d, source_text = src, coordinates = (a, v, s)\<rparr>)"

definition to_dict :: "InteractionPoint \<Rightarrow> dict" where
  "to_dict p =
     [(''timestamp'', PFloat (fst (timestamp p)) (snd (timestamp p))),
      (''arousal'', PInt (arousal p)),
      (''valence'', PInt (valence p)),
      (''impact_scope'', PInt (impact_scope p)),
      (''description'', PStr (description p)),
      (''source_text'', PStr (source_text p)),
      (''coordinates'',
         (case coordinates p of (a, v, s) \<Rightarrow> PTuple [PInt a, PInt v, PInt s]))]"

section \<open>ValenceLedger\<close>

record ValenceLedger =
  chain :: "dict list"

definition hash_entry :: "dict \<Rightarrow> string" where
  "hash_entry entry_data = sha256_hexdigest (json_dumps (PDict entry_data))"

definition create_genesis_block :: "rat \<times> string \<Rightarrow> ValenceLedger \<Rightarrow> error + ValenceLedger" where
  "create_genesis_block now l =
     (case InteractionPoint_init now 0 0 1 ''Ledger Initialized'' [] of
        Inl e \<Rightarrow> Inl e
      | Inr genesis_point \<Rightarrow>
          let genesis_entry = [(''index'', PInt 0),
                               (''point_data'', PDict (to_dict genesis_point)),
                               (''previous_hash'', PStr ''0'')];
              genesis_entry = dict_set ''hash'' (PStr (hash_entry genesis_entry)) genesis_entry
          in Inr (l\<lparr>chain := chain l @ [genesis_entry]\<rparr>))"

definition ValenceLedger_init :: "rat \<times> string \<Rightarrow> error + ValenceLedger" where
  "ValenceLedger_init now = create_genesis_block now \<lparr>chain = []\<rparr>"

text \<open>\<open>log_event\<close> returns the entry it stored, next to the updated ledger.\<close>

definition log_event :: "ValenceLedger \<Rightarrow> InteractionPoint \<Rightarrow> error + ValenceLedger \<times> dict" where
  "log_event l point =
     (case list_get (chain l) (- 1) of Inl e \<Rightarrow> Inl e | Inr last_entry \<Rightarrow>
      case dict_get last_entry ''hash'' of Inl e \<Rightarrow> Inl e | Inr previous_hash \<Rightarrow>
        let new_entry = [(''index'', PInt (int (length (chain l)))),
                         (''point_data'', PDict (to_dict point)),
                         (''previous_hash'', previous_hash)];
            new_entry = dict_set ''hash'' (PStr (hash_entry new_entry)) new_entry
        in Inr (l\<lparr>chain := chain l @ [new_entry]\<rparr>, new_entry))"

text \<open>
  The loop of \<open>verify_integrity\<close>, from index \<open>i\<close>. The messages it prints before
  returning False are not part of the model.
\<close>

function verify_from :: "dict list \<Rightarrow> nat \<Rightarrow> error + bool" where
  "verify_from c i =
     (if i < length c then
        (case list_get c (int i) of Inl e \<Rightarrow> Inl e | Inr current \<Rightarrow>
         case list_get c (int i - 1) of Inl e \<Rightarrow> Inl e | Inr previous \<Rightarrow>
         case dict_get current ''previous_hash'' of Inl e \<Rightarrow> Inl e | Inr ph \<Rightarrow>
         case dict_get previous ''hash'' of Inl e \<Rightarrow> Inl e | Inr h \<Rightarrow>
           if py_ne ph h then Inr False
           else
             (case dict_del ''hash'' current of Inl e \<Rightarrow> Inl e | Inr entry_to_verify \<Rightarrow>
              case dict_get current ''hash'' of Inl e \<Rightarrow> Inl e | Inr stored \<Rightarrow>
                if py_ne (PStr (hash_entry entry_to_verify)) stored then Inr False
                else verify_from c (Suc i)))
      else Inr True)"
  by pat_completeness auto
termination
  by (relation "measure (\<lambda>(c, i). length c - i)") auto

declare verify_from.simps [simp del]

definition verify_integrity :: "ValenceLedger \<Rightarrow> error + bool" where
  "verify_integrity l = verify_from (chain l) 1"

text \<open>
  What the driver does to tamper with the ledger:
  \<open>ledger.chain[i]['point_data'][k] = v\<close>.
\<close>

definition tamper_point :: "ValenceLedger \<Rightarrow> nat \<Rightarrow> string \<Rightarrow> pyval \<Rightarrow> error + ValenceLedger" where
  "tamper_point l i k v =
     (case list_get (chain l) (int i) of Inl e \<Rightarrow> Inl e | Inr entry \<Rightarrow>
      case dict_get entry ''point_data'' of Inl e \<Rightarrow> Inl e
      | Inr (PDict pd) \<Rightarrow>
          Inr (l\<lparr>chain := list_update (chain l) i
                            (dict_set ''point_data'' (PDict (dict_set k v pd)) entry)\<rparr>)
      | Inr other \<Rightarrow> Inl TypeError)"

section \<open>analyze_text\<close>

text \<open>\<open>str.lower\<close>, \<open>str.count\<close> (occurrences that do not overlap) and \<open>in\<close>.\<close>

definition lower_char :: "char \<Rightarrow> char" where
  "lower_char c =
     (let n = (of_char c :: nat) in
      if (65 \<le> n \<and> n \<le> 90) \<or> (192 \<le> n \<and> n \<le> 214) \<or> (216 \<le> n \<and> n \<le> 222)
      then char_of (n + 32) else c)"

definition lower :: "string \<Rightarrow> string" where
  "lower s = map lower_char s"

function str_count :: "string \<Rightarrow> string \<Rightarrow> nat" where
  "str_count s w =
     (if w = [] then Suc (length s)
      else if s = [] then 0
      else if take (length w) s = w then Suc (str_count (drop (length w) s) w)
      else str_count (tl s) w)"
  by pat_completeness auto
termination
  by (relation "measure (\<lambda>(s, w). length s)") (auto simp: neq_Nil_conv)

declare str_count.simps [simp del]

fun str_in :: "string \<Rightarrow> string \<Rightarrow> bool" where
  "str_in w [] = (w = [])"
| "str_in w (c # s) = (take (length w) (c # s) = w \<or> str_in w s)"

definition positive_words :: "string list" where
  "positive_words = [''love'', ''happy'', ''great'', ''good'', ''thanks'', ''help'']"

definition negative_words :: "string list" where
  "negative_words = [''hate'', ''sad'', ''bad'', ''harm'', ''hurt'', ''delete'']"

definition arousal_words :: "string list" where
  "arousal_words = [''!'', ''now'', ''urgent'', ''emergency'', ''help'']"

definition analyze_text :: "rat \<times> string \<Rightarrow> string \<Rightarrow> error + InteractionPoint" where
  "analyze_text now text =
     (let text_lower = lower text;
          valence = (\<Sum>w\<leftarrow>positive_words. int (str_count text_lower w)) * 10;
          valence = valence - (\<Sum>w\<leftarrow>negative_words. int (str_count text_lower w)) * 10;
          arousal = (\<Sum>w\<leftarrow>arousal_words. int (str_count text_lower w)) * 20;
          arousal = arousal + 5;
          impact_scope = (if str_in ''everyone'' text_lower \<or> str_in ''all users'' text_lower
                          then 1000 else 1);
          valence = max (-50) (min 50 valence);
          arousal = max 0 (min 100 arousal);
          description = ''Text analysis result for: '' @ [CHR 0x27] @ take 30 text
                        @ ''...'' @ [CHR 0x27]
      in InteractionPoint_init now arousal valence impact_scope description text)"

section \<open>Ledgers built by the interface, and tampering\<close>


text \<open>The ledgers that \<open>ValenceLedger()\<close> followed by calls of \<open>log_event\<close> can produce.\<close>

inductive reachable :: "ValenceLedger \<Rightarrow> bool" where
  fresh: "ValenceLedger_init now = Inr l \<Longrightarrow> reachable l"
| logged: "reachable l \<Longrightarrow> log_event l p = Inr (l', e) \<Longrightarrow> reachable l'"


section \<open>The two checks of verify_integrity, as the specification words them\<close>

definition has_key :: "string \<Rightarrow> dict \<Rightarrow> bool" where
  "has_key k d = (map_of d k \<noteq> None)"

text \<open>Every entry carries the two keys that \<open>verify_integrity\<close> reads.\<close>

definition keyed :: "dict list \<Rightarrow> bool" where
  "keyed c = list_all (\<lambda>e. has_key ''previous_hash'' e \<and> has_key ''hash'' e) c"

text \<open>Chain linkage at \<open>i\<close>: \<open>entries[i].previous_hash == entries[i-1].hash\<close>.\<close>

definition linked :: "dict list \<Rightarrow> nat \<Rightarrow> bool" where
  "linked c i =
     (case dict_get (c ! i) ''previous_hash'' of Inl e \<Rightarrow> False | Inr ph \<Rightarrow>
      case dict_get (c ! (i - 1)) ''hash'' of Inl e \<Rightarrow> False | Inr h \<Rightarrow> py_eq ph h)"

text \<open>Content binding: the stored hash is the hash of the entry without its hash field.\<close>

definition content_bound :: "dict \<Rightarrow> bool" where
  "content_bound e =
     (case dict_del ''hash'' e of Inl x \<Rightarrow> False | Inr d \<Rightarrow>
      case dict_get e ''hash'' of Inl x \<Rightarrow> False | Inr stored \<Rightarrow>
        py_eq (PStr (hash_entry d)) stored)"

definition all_checks :: "dict list \<Rightarrow> bool" where
  "all_checks c = list_all (\<lambda>i. linked c i \<and> content_bound (c ! i)) [1..<length c]"

section \<open>Entries as the interface stores them\<close>

text \<open>The entry that \<open>_create_genesis_block\<close> and \<open>log_event\<close> store: three items, then the hash of these three.\<close>

definition stored_entry :: "nat \<Rightarrow> dict \<Rightarrow> pyval \<Rightarrow> dict" where
  "stored_entry i pd ph =
     [(''index'', PInt (int i)), (''point_data'', PDict pd), (''previous_hash'', ph),
      (''hash'', PStr (hash_entry
         [(''index'', PInt (int i)), (''point_data'', PDict pd), (''previous_hash'', ph)]))]"

text \<open>
  Every entry of the chain is such an entry at its own position, and from the second
  on it carries the hash stored in the entry before it.
\<close>

definition chain_inv :: "dict list \<Rightarrow> bool" where
  "chain_inv c =
     (c \<noteq> [] \<and>
      (\<forall>i < length c. \<exists>pd ph. c ! i = stored_entry i pd ph \<and>
         (0 < i \<longrightarrow> dict_get (c ! (i - 1)) ''hash'' = Inr ph)))"

section \<open>verify_integrity on a store of objects\<close>

text \<open>
  The entries of the chain are dictionaries that the list refers to; \<open>current.copy()\<close>
  allocates a new dictionary with the same items, and \<open>del entry_to_verify['hash']\<close>
  changes the dictionary that \<open>entry_to_verify\<close> refers to. The store maps every
  address to a dictionary; the addresses from \<open>next_addr\<close> on are free.
\<close>

type_synonym addr = nat

record heap =
  store :: "addr \<Rightarrow> dict"
  chain_refs :: "addr list"
  next_addr :: addr

definition obj_get :: "heap \<Rightarrow> addr \<Rightarrow> string \<Rightarrow> error + pyval" where
  "obj_get s a k = dict_get (store s a) k"

definition obj_copy :: "heap \<Rightarrow> addr \<Rightarrow> addr \<times> heap" where
  "obj_copy s a =
     (next_addr s, s\<lparr>store := (store s)(next_addr s := store s a), next_addr := Suc (next_addr s)\<rparr>)"

definition obj_del :: "heap \<Rightarrow> addr \<Rightarrow> string \<Rightarrow> error + heap" where
  "obj_del s a k =
     (case dict_del k (store s a) of Inl e \<Rightarrow> Inl e
      | Inr d \<Rightarrow> Inr (s\<lparr>store := (store s)(a := d)\<rparr>))"

function verify_heap_from :: "heap \<Rightarrow> nat \<Rightarrow> (error + bool) \<times> heap" where
  "verify_heap_from s i =
     (if i < length (chain_refs s) then
        (case list_get (chain_refs s) (int i) of Inl e \<Rightarrow> (Inl e, s) | Inr current \<Rightarrow>
         case list_get (chain_refs s) (int i - 1) of Inl e \<Rightarrow> (Inl e, s) | Inr previous \<Rightarrow>
         case obj_get s current ''previous_hash'' of Inl e \<Rightarrow> (Inl e, s) | Inr ph \<Rightarrow>
         case obj_get s previous ''hash'' of Inl e \<Rightarrow> (Inl e, s) | Inr h \<Rightarrow>
           if py_ne ph h then (Inr False, s)
           else
             (let r = obj_copy s current; entry_to_verify = fst r; s1 = snd r in
              case obj_del s1 entry_to_verify ''hash'' of Inl e \<Rightarrow> (Inl e, s1) | Inr s2 \<Rightarrow>
              case obj_get s2 current ''hash'' of Inl e \<Rightarrow> (Inl e, s2) | Inr stored \<Rightarrow>
                if py_ne (PStr (hash_entry (store s2 entry_to_verify))) stored
                then (Inr False, s2)
                else verify_heap_from s2 (Suc i)))
      else (Inr True, s))"
  by pat_completeness auto
termination
  by (relation "measure (\<lambda>(s, i). length (chain_refs s) - i)")
     (auto simp: obj_copy_def obj_del_def split: sum.splits)

declare verify_heap_from.simps [simp del]

definition verify_integrity_heap :: "heap \<Rightarrow> (error + bool) \<times> heap" where
  "verify_integrity_heap s = verify_heap_from s 1"

text \<open>The ledger that a store holds: the dictionaries its chain refers to, in order.\<close>

definition ledger_of :: "heap \<Rightarrow> ValenceLedger" where
  "ledger_of s = \<lparr>chain = map (store s) (chain_refs s)\<rparr>"

definition allocated :: "heap \<Rightarrow> bool" where
  "allocated s = list_all (\<lambda>a. a < next_addr s) (chain_refs s)"

text \<open>
  What a call leaves alone: the chain, and every dictionary allocated before the call.
\<close>

definition frame :: "heap \<Rightarrow> heap \<Rightarrow> bool" where
  "frame s s' =
     (chain_refs s' = chain_refs s \<and> next_addr s \<le> next_addr s' \<and>
      (\<forall>a. a < next_addr s \<longrightarrow> store s' a = store s a))"

section \<open>A ledger of two entries\<close>

text \<open>
  The genesis entry made at clock reading 1756900000.5 and the entry logged for the
  point \<open>(80, -30, 1, "urgent")\<close> at the same reading.
\<close>

definition ex_time :: "rat \<times> string" where
  "ex_time = (3513800001 / 2, ''1756900000.5'')"

definition ex_point :: InteractionPoint where
  "ex_point = \<lparr>timestamp = ex_time, arousal = 80, valence = -30, impact_scope = 1,
                description = ''urgent'', source_text = [], coordinates = (80, -30, 1)\<rparr>"

definition ex_genesis_data :: dict where
  "ex_genesis_data =
     [(''index'', PInt 0),
      (''point_data'', PDict
         [(''timestamp'', PFloat (3513800001 / 2) ''1756900000.5''),
          (''arousal'', PInt 0), (''valence'', PInt 0), (''impact_scope'', PInt 1),
          (''description'', PStr ''Ledger Initialized''), (''source_text'', PStr []),
          (''coordinates'', PTuple [PInt 0, PInt 0, PInt 1])]),
      (''previous_hash'', PStr ''0'')]"

definition ex_genesis :: dict where
  "ex_genesis = ex_genesis_data @ [(''hash'', PStr (hash_entry ex_genesis_data))]"

definition ex_point_data :: dict where
  "ex_point_data =
     [(''timestamp'', PFloat (3513800001 / 2) ''1756900000.5''),
      (''arousal'', PInt 80), (''valence'', PInt (- 30)), (''impact_scope'', PInt 1),
      (''description'', PStr ''urgent''), (''source_text'', PStr []),
      (''coordinates'', PTuple [PInt 80, PInt (- 30), PInt 1])]"

definition ex_entry_data :: "dict \<Rightarrow> dict" where
  "ex_entry_data pd =
     [(''index'', PInt 1), (''point_data'', PDict pd),
      (''previous_hash'', PStr (hash_entry ex_genesis_data))]"

definition ex_entry :: dict where
  "ex_entry = ex_entry_data ex_point_data @ [(''hash'', PStr (hash_entry (ex_entry_data ex_point_data)))]"

definition ex_ledger :: ValenceLedger where
  "ex_ledger = \<lparr>chain = [ex_genesis, ex_entry]\<rparr>"


text \<open>The genesis entry after \<open>ledger.chain[0]['point_data']['description'] = 'Nothing happened'\<close>.\<close>

definition ex_genesis_tampered :: dict where
  "ex_genesis_tampered =
     dict_set ''point_data''
       (PDict (dict_set ''description'' (PStr ''Nothing happened'')
          [(''timestamp'', PFloat (3513800001 / 2) ''1756900000.5''),
           (''arousal'', PInt 0), (''valence'', PInt 0), (''impact_scope'', PInt 1),
           (''description'', PStr ''Ledger Initialized''), (''source_text'', PStr []),
           (''coordinates'', PTuple [PInt 0, PInt 0, PInt 1])])) ex_genesis"





text \<open>
  The ledger of two entries in a store, and the store after \<open>verify_integrity\<close>: the
  copy of the logged entry, without its hash, is left at address 2.
\<close>

definition ex_heap :: heap where
  "ex_heap = \<lparr>store = (\<lambda>a. []) (0 := ex_genesis, 1 := ex_entry), chain_refs = [0, 1],
              next_addr = 2\<rparr>"

definition ex_heap_after :: heap where
  "ex_heap_after =
     \<lparr>store = (\<lambda>a. []) (0 := ex_genesis, 1 := ex_entry, 2 := ex_entry_data ex_point_data),
      chain_refs = [0, 1], next_addr = 3\<rparr>"

section \<open>Facts about the model\<close>


subsection \<open>Lists and dictionaries\<close>

lemma list_get_nat: "i < length xs \<Longrightarrow> list_get xs (int i) = Inr (xs ! i)"
  by (simp add: list_get_def)

lemma list_get_pred: "0 < i \<Longrightarrow> i < length xs \<Longrightarrow> list_get xs (int i - 1) = Inr (xs ! (i - 1))"
  by (simp add: list_get_def nat_diff_distrib)

lemma list_get_last: "xs \<noteq> [] \<Longrightarrow> list_get xs (- 1) = Inr (last xs)"
  by (cases xs rule: rev_cases) (simp_all add: list_get_def nth_append)

lemma has_key_get: "has_key k d \<Longrightarrow> \<exists>v. dict_get d k = Inr v"
  by (auto simp: has_key_def dict_get_def)

lemma has_key_del: "has_key k d \<Longrightarrow> dict_del k d = Inr (filter (\<lambda>p. fst p \<noteq> k) d)"
  by (auto simp: has_key_def dict_del_def)

lemma map_of_dict_set: "map_of (dict_set k v d) k' = (if k' = k then Some v else map_of d k')"
  by (induction d) auto

lemma dict_get_dict_set: "dict_get (dict_set k v d) k' = (if k' = k then Inr v else dict_get d k')"
  by (simp add: dict_get_def map_of_dict_set)

lemma filter_dict_set:
  "k' \<noteq> k \<Longrightarrow> filter (\<lambda>p. fst p \<noteq> k') (dict_set k v d) = dict_set k v (filter (\<lambda>p. fst p \<noteq> k') d)"
  by (induction d) auto

lemma keyed_nth: "keyed c \<Longrightarrow> i < length c \<Longrightarrow> has_key ''previous_hash'' (c ! i) \<and> has_key ''hash'' (c ! i)"
  by (simp add: keyed_def list_all_length)

lemma dict_get_Nil: "dict_get [] k = Inl KeyError"
  by (simp add: dict_get_def)

lemma dict_get_Cons: "dict_get (p # d) k = (if fst p = k then Inr (snd p) else dict_get d k)"
  by (cases p) (simp add: dict_get_def)


lemma dict_del_present:
  "k \<in> fst ` set d \<Longrightarrow> dict_del k d = Inr (filter (\<lambda>p. fst p \<noteq> k) d)"
  by (cases "map_of d k") (simp_all add: dict_del_def map_of_eq_None_iff)

subsection \<open>One round of the loop\<close>

lemma verify_from_unfold:
  assumes "0 < i" "i < length c"
  shows "verify_from c i =
     (case dict_get (c ! i) ''previous_hash'' of Inl e \<Rightarrow> Inl e | Inr ph \<Rightarrow>
      case dict_get (c ! (i - 1)) ''hash'' of Inl e \<Rightarrow> Inl e | Inr h \<Rightarrow>
        if py_ne ph h then Inr False
        else
          (case dict_del ''hash'' (c ! i) of Inl e \<Rightarrow> Inl e | Inr entry_to_verify \<Rightarrow>
           case dict_get (c ! i) ''hash'' of Inl e \<Rightarrow> Inl e | Inr stored \<Rightarrow>
             if py_ne (PStr (hash_entry entry_to_verify)) stored then Inr False
             else verify_from c (Suc i)))"
  using assms by (subst verify_from.simps) (simp add: list_get_nat list_get_pred del: One_nat_def)

lemma verify_from_past: "length c \<le> i \<Longrightarrow> verify_from c i = Inr True"
  by (subst verify_from.simps) simp

lemma verify_from_step:
  assumes "0 < i" "i < length c"
    and "has_key ''previous_hash'' (c ! i)" "has_key ''hash'' (c ! i)" "has_key ''hash'' (c ! (i - 1))"
  shows "verify_from c i =
     (if linked c i \<and> content_bound (c ! i) then verify_from c (Suc i) else Inr False)"
proof -
  from assms(3) obtain ph where ph: "dict_get (c ! i) ''previous_hash'' = Inr ph"
    using has_key_get by blast
  from assms(4) obtain st where st: "dict_get (c ! i) ''hash'' = Inr st"
    using has_key_get by blast
  from assms(5) obtain h where h: "dict_get (c ! (i - 1)) ''hash'' = Inr h"
    using has_key_get by blast
  show ?thesis
    unfolding verify_from_unfold [OF assms(1,2)]
    by (simp add: ph st h has_key_del [OF assms(4)] linked_def content_bound_def py_ne_def
          del: One_nat_def)
qed

lemma all_checks_iff:
  "all_checks c = (\<forall>j. 0 < j \<and> j < length c \<longrightarrow> linked c j \<and> content_bound (c ! j))"
  by (auto simp: all_checks_def list_all_iff)

lemma verify_from_char:
  assumes "keyed c" "0 < i"
  shows "verify_from c i = Inr (\<forall>j. i \<le> j \<and> j < length c \<longrightarrow> linked c j \<and> content_bound (c ! j))"
  using assms(2)
proof (induction "length c - i" arbitrary: i)
  case 0
  then show ?case by (auto simp: verify_from_past)
next
  case (Suc n)
  then have i: "i < length c" by simp
  have k: "has_key ''previous_hash'' (c ! i)" "has_key ''hash'' (c ! i)" "has_key ''hash'' (c ! (i - 1))"
    using keyed_nth [OF assms(1)] i by simp_all
  have IH: "verify_from c (Suc i) =
      Inr (\<forall>j. Suc i \<le> j \<and> j < length c \<longrightarrow> linked c j \<and> content_bound (c ! j))"
    using Suc by simp
  have split: "(\<forall>j. i \<le> j \<and> j < length c \<longrightarrow> linked c j \<and> content_bound (c ! j)) =
     ((linked c i \<and> content_bound (c ! i)) \<and>
      (\<forall>j. Suc i \<le> j \<and> j < length c \<longrightarrow> linked c j \<and> content_bound (c ! j)))"
    using i by (metis Suc_leI le_neq_implies_less order_refl Suc_le_lessD less_imp_le_nat)
  show ?case
    unfolding verify_from_step [OF Suc.prems i k] IH split by auto
qed

lemma verify_integrity_char:
  "keyed (chain l) \<Longrightarrow> verify_integrity l = Inr (all_checks (chain l))"
  by (simp add: verify_integrity_def verify_from_char all_checks_iff Suc_le_eq)


lemma verify_from_update_0:
  assumes "dict_get e ''hash'' = dict_get (c ! 0) ''hash''" "0 < i"
  shows "verify_from (list_update c 0 e) i = verify_from c i"
  using assms(2)
proof (induction "length c - i" arbitrary: i)
  case 0
  then show ?case by (simp add: verify_from_past)
next
  case (Suc n)
  then have i: "i < length c" "i < length (list_update c 0 e)" by simp_all
  have nth: "list_update c 0 e ! i = c ! i"
    using Suc.prems by simp
  have "0 < length c"
    using i by (cases c) simp_all
  then have prev: "dict_get (list_update c 0 e ! (i - 1)) ''hash'' = dict_get (c ! (i - 1)) ''hash''"
    using assms(1) by (cases "i - 1") simp_all
  have IH: "verify_from (list_update c 0 e) (Suc i) = verify_from c (Suc i)"
    using Suc by simp
  show ?case
    unfolding verify_from_unfold [OF Suc.prems i(1)] verify_from_unfold [OF Suc.prems i(2)] nth prev IH
    by simp
qed

subsection \<open>Ledgers built by the interface\<close>

lemma InteractionPoint_init_genesis:
  "InteractionPoint_init now 0 0 1 d src =
     Inr \<lparr>timestamp = now, arousal = 0, valence = 0, impact_scope = 1,
          description = d, source_text = src, coordinates = (0, 0, 1)\<rparr>"
  by (simp add: InteractionPoint_init_def)

lemma ValenceLedger_init_eq:
  "ValenceLedger_init now =
     Inr \<lparr>chain = [stored_entry 0
        (to_dict \<lparr>timestamp = now, arousal = 0, valence = 0, impact_scope = 1,
                  description = ''Ledger Initialized'', source_text = [],
                  coordinates = (0, 0, 1)\<rparr>) (PStr ''0'')]\<rparr>"
  by (simp add: ValenceLedger_init_def create_genesis_block_def InteractionPoint_init_genesis
        stored_entry_def Let_def)

lemma log_event_eq:
  assumes "chain l \<noteq> []" "dict_get (last (chain l)) ''hash'' = Inr h"
  shows "log_event l p =
     Inr (l\<lparr>chain := chain l @ [stored_entry (length (chain l)) (to_dict p) h]\<rparr>,
          stored_entry (length (chain l)) (to_dict p) h)"
  using assms by (simp add: log_event_def list_get_last stored_entry_def Let_def)

lemma stored_entry_get:
  "dict_get (stored_entry i pd ph) ''index'' = Inr (PInt (int i))"
  "dict_get (stored_entry i pd ph) ''point_data'' = Inr (PDict pd)"
  "dict_get (stored_entry i pd ph) ''previous_hash'' = Inr ph"
  "dict_get (stored_entry i pd ph) ''hash'' =
     Inr (PStr (hash_entry [(''index'', PInt (int i)), (''point_data'', PDict pd),
                            (''previous_hash'', ph)]))"
  by (simp_all add: stored_entry_def dict_get_def)

lemma stored_entry_del:
  "dict_del ''hash'' (stored_entry i pd ph) =
     Inr [(''index'', PInt (int i)), (''point_data'', PDict pd), (''previous_hash'', ph)]"
  by (simp add: stored_entry_def dict_del_def)

lemma chain_inv_init: "ValenceLedger_init now = Inr l \<Longrightarrow> chain_inv (chain l)"
  unfolding ValenceLedger_init_eq chain_inv_def by fastforce

lemma chain_inv_last_hash:
  assumes "chain_inv c"
  shows "\<exists>h. dict_get (last c) ''hash'' = Inr h"
proof -
  from assms have "c \<noteq> []" by (simp add: chain_inv_def)
  then have "last c = c ! (length c - 1)" "length c - 1 < length c"
    by (simp_all add: last_conv_nth)
  with assms obtain pd ph where "last c = stored_entry (length c - 1) pd ph"
    unfolding chain_inv_def by metis
  then show ?thesis by (simp add: stored_entry_get)
qed

lemma chain_inv_snoc:
  assumes "chain_inv c" "dict_get (last c) ''hash'' = Inr h"
  shows "chain_inv (c @ [stored_entry (length c) pd h])"
proof -
  from assms(1) have ne: "c \<noteq> []" by (simp add: chain_inv_def)
  have "\<exists>pd' ph. (c @ [stored_entry (length c) pd h]) ! i = stored_entry i pd' ph \<and>
         (0 < i \<longrightarrow> dict_get ((c @ [stored_entry (length c) pd h]) ! (i - 1)) ''hash'' = Inr ph)"
    if "i < length c + 1" for i
  proof (cases "i < length c")
    case True
    then have "i - 1 < length c" by simp
    with True assms(1) show ?thesis
      by (simp add: chain_inv_def nth_append del: One_nat_def)
  next
    case False
    with that have i: "i = length c" by simp
    have "(c @ [stored_entry (length c) pd h]) ! (length c - 1) = last c"
      using ne by (simp add: nth_append last_conv_nth)
    then show ?thesis
      using assms(2) by (auto simp: i simp del: One_nat_def)
  qed
  then show ?thesis
    using ne by (simp add: chain_inv_def del: One_nat_def)
qed

lemma log_event_inv:
  assumes "chain_inv (chain l)"
  shows "\<exists>h. dict_get (last (chain l)) ''hash'' = Inr h \<and>
     log_event l p =
       Inr (l\<lparr>chain := chain l @ [stored_entry (length (chain l)) (to_dict p) h]\<rparr>,
            stored_entry (length (chain l)) (to_dict p) h) \<and>
     chain_inv (chain l @ [stored_entry (length (chain l)) (to_dict p) h])"
proof -
  from chain_inv_last_hash [OF assms] obtain h
    where h: "dict_get (last (chain l)) ''hash'' = Inr h" by blast
  from assms have "chain l \<noteq> []" by (simp add: chain_inv_def)
  then show ?thesis
    using h log_event_eq [of l h p] chain_inv_snoc [OF assms h] by blast
qed

lemma reachable_inv: "reachable l \<Longrightarrow> chain_inv (chain l)"
proof (induction rule: reachable.induct)
  case (fresh now l)
  then show ?case by (rule chain_inv_init)
next
  case (logged l p l' e)
  from log_event_inv [OF logged.IH, of p] logged.hyps(2) show ?case by auto
qed

lemma chain_inv_keyed: "chain_inv c \<Longrightarrow> keyed c"
  unfolding keyed_def list_all_length chain_inv_def
  by (metis has_key_def dict_get_def stored_entry_get(3,4) option.simps(4) sum.simps(4) Inl_Inr_False)

lemma chain_inv_linked:
  assumes "chain_inv c" "0 < i" "i < length c"
  shows "\<exists>h. dict_get (c ! i) ''previous_hash'' = Inr h \<and> dict_get (c ! (i - 1)) ''hash'' = Inr h"
  using assms unfolding chain_inv_def by (metis stored_entry_get(3))

lemma chain_inv_bound:
  assumes "chain_inv c" "i < length c"
  shows "\<exists>d. dict_del ''hash'' (c ! i) = Inr d \<and> dict_get (c ! i) ''hash'' = Inr (PStr (hash_entry d))"
  using assms unfolding chain_inv_def by (metis stored_entry_get(4) stored_entry_del)

subsection \<open>Verification of ledgers built by the interface\<close>


lemma reachable_verify: "reachable l \<Longrightarrow> verify_integrity l = Inr True"
proof -
  assume r: "reachable l"
  then have inv: "chain_inv (chain l)" by (rule reachable_inv)
  have "linked (chain l) j \<and> content_bound (chain l ! j)" if "0 < j" "j < length (chain l)" for j
  proof -
    from chain_inv_linked [OF inv that] obtain h where
      h: "dict_get (chain l ! j) ''previous_hash'' = Inr h" "dict_get (chain l ! (j - 1)) ''hash'' = Inr h"
      by blast
    have "j - 1 < length (chain l)" using that by simp
    from chain_inv_bound [OF inv this] h(2) obtain s where "h = PStr s" by auto
    then have "linked (chain l) j" using h by (simp add: linked_def)
    moreover from chain_inv_bound [OF inv that(2)] have "content_bound (chain l ! j)"
      by (auto simp: content_bound_def)
    ultimately show ?thesis by simp
  qed
  then show ?thesis
    by (simp add: verify_integrity_char [OF chain_inv_keyed [OF inv]] all_checks_iff)
qed





subsection \<open>The loop on a store\<close>

lemma verify_heap_from_past:
  "length (chain_refs s) \<le> i \<Longrightarrow> verify_heap_from s i = (Inr True, s)"
  by (subst verify_heap_from.simps) simp

lemma verify_heap_from_unfold:
  assumes "0 < i" "i < length (chain_refs s)"
  shows "verify_heap_from s i =
     (case obj_get s (chain_refs s ! i) ''previous_hash'' of Inl e \<Rightarrow> (Inl e, s) | Inr ph \<Rightarrow>
      case obj_get s (chain_refs s ! (i - 1)) ''hash'' of Inl e \<Rightarrow> (Inl e, s) | Inr h \<Rightarrow>
        if py_ne ph h then (Inr False, s)
        else
          (case obj_del (snd (obj_copy s (chain_refs s ! i))) (fst (obj_copy s (chain_refs s ! i))) ''hash'' of
             Inl e \<Rightarrow> (Inl e, snd (obj_copy s (chain_refs s ! i)))
           | Inr s2 \<Rightarrow>
             (case obj_get s2 (chain_refs s ! i) ''hash'' of Inl e \<Rightarrow> (Inl e, s2) | Inr stored \<Rightarrow>
                if py_ne (PStr (hash_entry (store s2 (fst (obj_copy s (chain_refs s ! i)))))) stored
                then (Inr False, s2)
                else verify_heap_from s2 (Suc i))))"
  using assms
  by (subst verify_heap_from.simps)
     (simp add: list_get_nat list_get_pred Let_def del: One_nat_def cong: sum.case_cong if_cong)

lemma frame_refl: "frame s s"
  by (simp add: frame_def)

lemma frame_trans: "frame s s1 \<Longrightarrow> frame s1 s2 \<Longrightarrow> frame s s2"
  by (auto simp: frame_def)

lemma frame_copy: "frame s (snd (obj_copy s a))"
  by (simp add: frame_def obj_copy_def)

lemma frame_del_copy:
  "obj_del (snd (obj_copy s a)) (fst (obj_copy s a)) k = Inr s2 \<Longrightarrow> frame s s2"
  by (auto simp: frame_def obj_copy_def obj_del_def split: sum.splits)

lemma allocated_frame: "allocated s \<Longrightarrow> frame s s' \<Longrightarrow> allocated s'"
  unfolding allocated_def frame_def list_all_iff by force

lemma frame_map:
  "allocated s \<Longrightarrow> frame s s' \<Longrightarrow> map (store s') (chain_refs s') = map (store s) (chain_refs s)"
  unfolding allocated_def frame_def list_all_iff by simp

lemma del_copy_result:
  assumes "obj_del (snd (obj_copy s a)) (fst (obj_copy s a)) k = Inr s2"
  shows "dict_del k (store s a) = Inr (store s2 (fst (obj_copy s a)))"
  using assms by (auto simp: obj_copy_def obj_del_def split: sum.splits)

lemma del_copy_error:
  assumes "obj_del (snd (obj_copy s a)) (fst (obj_copy s a)) k = Inl e"
  shows "dict_del k (store s a) = Inl e"
  using assms by (auto simp: obj_copy_def obj_del_def split: sum.splits)

lemma verify_heap_from_frame:
  assumes "allocated s" "0 < i" "verify_heap_from s i = (r, s')"
  shows "frame s s' \<and> r = verify_from (map (store s) (chain_refs s)) i"
  using assms
proof (induction "length (chain_refs s) - i" arbitrary: s i)
  case 0
  then show ?case
    by (simp add: verify_heap_from_past verify_from_past frame_refl)
next
  case (Suc n)
  let ?refs = "chain_refs s"
  let ?c = "map (store s) ?refs"
  let ?cur = "?refs ! i"
  from Suc.hyps(2) have i: "i < length ?refs" "i < length ?c" by simp_all
  then have i1: "i - 1 < length ?refs" by simp
  have cur: "?c ! i = store s ?cur" and prev: "?c ! (i - 1) = store s (?refs ! (i - 1))"
    using i i1 by (simp_all del: One_nat_def)
  have alloc: "?cur < next_addr s"
    using Suc.prems(1) i unfolding allocated_def list_all_length by simp
  note H = Suc.prems(3) [unfolded verify_heap_from_unfold [OF Suc.prems(2) i(1)]]
  note P = verify_from_unfold [OF Suc.prems(2) i(2), unfolded cur prev]
  show ?case
  proof (cases "obj_get s ?cur ''previous_hash''")
    case (Inl e)
    with H P show ?thesis by (simp add: obj_get_def frame_refl)
  next
    case ph: (Inr ph)
    show ?thesis
    proof (cases "obj_get s (?refs ! (i - 1)) ''hash''")
      case (Inl e)
      with H P ph show ?thesis by (simp add: obj_get_def frame_refl)
    next
      case h: (Inr h)
      show ?thesis
      proof (cases "py_ne ph h")
        case True
        with H P ph h show ?thesis by (simp add: obj_get_def frame_refl)
      next
        case ne: False
        show ?thesis
        proof (cases "obj_del (snd (obj_copy s ?cur)) (fst (obj_copy s ?cur)) ''hash''")
          case (Inl e)
          from del_copy_error [OF Inl] H P ph h ne Inl frame_copy [of s ?cur] show ?thesis
            by (simp add: obj_get_def)
        next
          case s2: (Inr s2)
          have f2: "frame s s2" by (rule frame_del_copy [OF s2])
          have d: "dict_del ''hash'' (store s ?cur) = Inr (store s2 (fst (obj_copy s ?cur)))"
            by (rule del_copy_result [OF s2])
          have g: "obj_get s2 ?cur ''hash'' = dict_get (store s ?cur) ''hash''"
            using f2 alloc by (simp add: obj_get_def frame_def)
          show ?thesis
          proof (cases "dict_get (store s ?cur) ''hash''")
            case (Inl e)
            with H P ph h ne s2 d g f2 show ?thesis by (simp add: obj_get_def)
          next
            case st: (Inr stored)
            show ?thesis
            proof (cases "py_ne (PStr (hash_entry (store s2 (fst (obj_copy s ?cur))))) stored")
              case True
              with H P ph h ne s2 d g st f2 show ?thesis by (simp add: obj_get_def)
            next
              case False
              with H ph h ne s2 g st have rec: "verify_heap_from s2 (Suc i) = (r, s')"
                by simp
              have a2: "allocated s2" by (rule allocated_frame [OF Suc.prems(1) f2])
              have "n = length (chain_refs s2) - Suc i"
                using Suc.hyps(2) f2 by (simp add: frame_def)
              from Suc.hyps(1) [OF this a2 _ rec]
              have IH: "frame s2 s'" "r = verify_from (map (store s2) (chain_refs s2)) (Suc i)"
                by simp_all
              have "r = verify_from ?c (Suc i)"
                using IH(2) frame_map [OF Suc.prems(1) f2] by simp
              moreover have "verify_from ?c i = verify_from ?c (Suc i)"
                using P ph h ne d st False by (simp add: obj_get_def)
              ultimately show ?thesis
                using frame_trans [OF f2 IH(1)] by simp
            qed
          qed
        qed
      qed
    qed
  qed
qed

subsection \<open>The ledger of two entries\<close>

lemma ex_init: "ValenceLedger_init ex_time = Inr \<lparr>chain = [ex_genesis]\<rparr>"
  by (simp add: ValenceLedger_init_eq stored_entry_def to_dict_def ex_time_def ex_genesis_def
        ex_genesis_data_def)

lemma ex_genesis_hash: "dict_get ex_genesis ''hash'' = Inr (PStr (hash_entry ex_genesis_data))"
  by (simp add: ex_genesis_def ex_genesis_data_def dict_get_def)

lemma ex_log: "log_event \<lparr>chain = [ex_genesis]\<rparr> ex_point = Inr (ex_ledger, ex_entry)"
  by (simp add: log_event_eq [where h = "PStr (hash_entry ex_genesis_data)"] ex_genesis_hash
        stored_entry_def to_dict_def ex_point_def ex_time_def ex_ledger_def ex_entry_def
        ex_entry_data_def ex_point_data_def)

lemma ex_reachable: "reachable ex_ledger"
  using reachable.logged [OF reachable.fresh [OF ex_init] ex_log] .

lemma ex_verify: "verify_integrity ex_ledger = Inr True"
  by (rule reachable_verify [OF ex_reachable])




lemma ex_heap_verify: "verify_integrity_heap ex_heap = (Inr True, ex_heap_after)"
  by (simp add: verify_integrity_heap_def verify_heap_from.simps [of _ "Suc 0"]
      verify_heap_from_past ex_heap_def ex_heap_after_def list_get_def obj_get_def obj_copy_def
      obj_del_def ex_genesis_hash ex_entry_def ex_entry_data_def dict_get_Cons dict_del_present
      py_ne_def Let_def fun_upd_twist)

section \<open>The claims\<close>







text \<open>
  C3. In every ledger reached by initialization followed by calls of \<open>log_event\<close>,
  each entry after the first carries as previous_hash the hash stored in the entry
  before it, and the hash stored in every entry is the hash of that entry without its
  hash field.
\<close>

theorem reachable_invariants:
  assumes "reachable l"
  shows "(\<forall>i. 0 < i \<and> i < length (chain l) \<longrightarrow>
            (\<exists>h. dict_get (chain l ! i) ''previous_hash'' = Inr h \<and>
                 dict_get (chain l ! (i - 1)) ''hash'' = Inr h)) \<and>
         (\<forall>i. i < length (chain l) \<longrightarrow>
            (\<exists>d. dict_del ''hash'' (chain l ! i) = Inr d \<and>
                 dict_get (chain l ! i) ''hash'' = Inr (PStr (hash_entry d))))"
  using chain_inv_linked [OF reachable_inv [OF assms]] chain_inv_bound [OF reachable_inv [OF assms]]
  by blast

theorem reachable_invariants_witness:
  "reachable ex_ledger \<and>
   dict_get (chain ex_ledger ! 1) ''previous_hash'' = dict_get (chain ex_ledger ! 0) ''hash'' \<and>
   dict_get (chain ex_ledger ! 1) ''hash'' = Inr (PStr (hash_entry (ex_entry_data ex_point_data)))"
proof -
  have "dict_del ''hash'' (chain ex_ledger ! 1) = Inr (ex_entry_data ex_point_data)"
    by (simp add: ex_ledger_def ex_entry_def ex_entry_data_def dict_del_def)
  moreover have "length (chain ex_ledger) = 2"
    by (simp add: ex_ledger_def)
  ultimately show ?thesis
    using reachable_invariants [OF ex_reachable] ex_reachable
    by (metis One_nat_def Suc_1 diff_Suc_1 lessI zero_less_one Inr_inject)
qed

text \<open>
  C4. A freshly initialized ledger has exactly one entry; it has index 0, previous_hash
  \<open>"0"\<close> and the data of the genesis point (arousal 0, valence 0, impact_scope 1,
  description \<open>"Ledger Initialized"\<close>), and \<open>verify_integrity\<close> returns True on it.
\<close>

theorem fresh_ledger:
  "\<exists>l. ValenceLedger_init now = Inr l \<and> length (chain l) = 1 \<and>
     dict_get (chain l ! 0) ''index'' = Inr (PInt 0) \<and>
     dict_get (chain l ! 0) ''previous_hash'' = Inr (PStr ''0'') \<and>
     dict_get (chain l ! 0) ''point_data'' =
       Inr (PDict (to_dict \<lparr>timestamp = now, arousal = 0, valence = 0, impact_scope = 1,
                            description = ''Ledger Initialized'', source_text = [],
                            coordinates = (0, 0, 1)\<rparr>)) \<and>
     verify_integrity l = Inr True"
  by (simp add: ValenceLedger_init_eq stored_entry_get verify_integrity_def verify_from_past)

text \<open>
  C5. Constructing an \<open>InteractionPoint\<close> raises the validation error (\<open>ValueError\<close> in
  the code) exactly when arousal is outside [0,100], or valence is outside [-50,50], or
  impact_scope is below 1; then no object is returned. For all other arguments it
  returns the object holding the given values (and the clock reading as timestamp).
\<close>

theorem interaction_point_construction:
  "(InteractionPoint_init now a v s d src = Inl ValueError) =
     (a < 0 \<or> 100 < a \<or> v < - 50 \<or> 50 < v \<or> s < 1) \<and>
   (InteractionPoint_init now a v s d src =
      Inr \<lparr>timestamp = now, arousal = a, valence = v, impact_scope = s,
           description = d, source_text = src, coordinates = (a, v, s)\<rparr>) =
     (0 \<le> a \<and> a \<le> 100 \<and> - 50 \<le> v \<and> v \<le> 50 \<and> 1 \<le> s)"
  by (auto simp: InteractionPoint_init_def)

theorem interaction_point_construction_witness:
  "InteractionPoint_init ex_time 101 0 1 ''d'' [] = Inl ValueError \<and>
   InteractionPoint_init ex_time 0 (- 51) 1 ''d'' [] = Inl ValueError \<and>
   InteractionPoint_init ex_time 0 0 0 ''d'' [] = Inl ValueError \<and>
   InteractionPoint_init ex_time 80 (- 30) 1 ''urgent'' [] = Inr ex_point"
  using interaction_point_construction [of ex_time 101 0 1 "''d''" "[]"]
    interaction_point_construction [of ex_time 0 "- 51" 1 "''d''" "[]"]
    interaction_point_construction [of ex_time 0 0 0 "''d''" "[]"]
    interaction_point_construction [of ex_time 80 "- 30" 1 "''urgent''" "[]"]
  by (simp add: ex_point_def)






text \<open>
  C8. For every text, \<open>analyze_text\<close> returns a point, with arousal in [0,100], valence
  in [-50,50] and impact_scope at least 1; it never raises the validation error.
\<close>

theorem analyze_text_in_range:
  "\<exists>p. analyze_text now text = Inr p \<and>
     0 \<le> arousal p \<and> arousal p \<le> 100 \<and> - 50 \<le> valence p \<and> valence p \<le> 50 \<and>
     1 \<le> impact_scope p"
  by (simp add: analyze_text_def InteractionPoint_init_def Let_def)

text \<open>
  C9. \<open>verify_integrity\<close> changes nothing of the ledger, whether it returns True, False
  or raises: the chain refers to the same dictionaries, every dictionary that existed
  before the call has the items it had (the deletion of \<open>hash\<close> acts on the copy made
  by \<open>current.copy()\<close>, a new dictionary), and the result is the one computed on the
  ledger's values.
\<close>

theorem verify_integrity_frame:
  assumes "allocated s" "verify_integrity_heap s = (r, s')"
  shows "chain_refs s' = chain_refs s \<and>
         (\<forall>a. a < next_addr s \<longrightarrow> store s' a = store s a) \<and>
         ledger_of s' = ledger_of s \<and>
         r = verify_integrity (ledger_of s)"
proof -
  from assms(2) have "verify_heap_from s 1 = (r, s')"
    by (simp add: verify_integrity_heap_def)
  from verify_heap_from_frame [OF assms(1) _ this]
  have f: "frame s s'" and r: "r = verify_from (map (store s) (chain_refs s)) 1"
    by simp_all
  from frame_map [OF assms(1) f] have "ledger_of s' = ledger_of s"
    by (simp add: ledger_of_def)
  with f r show ?thesis
    by (simp add: frame_def verify_integrity_def ledger_of_def)
qed

theorem verify_integrity_frame_witness:
  "allocated ex_heap \<and>
   verify_integrity_heap ex_heap = (Inr True, ex_heap_after) \<and>
   chain_refs ex_heap_after = chain_refs ex_heap \<and>
   store ex_heap_after 0 = store ex_heap 0 \<and>
   store ex_heap_after 1 = store ex_heap 1 \<and>
   store ex_heap_after 2 \<noteq> store ex_heap 2 \<and>
   ledger_of ex_heap_after = ledger_of ex_heap \<and>
   ledger_of ex_heap = ex_ledger \<and>
   verify_integrity (ledger_of ex_heap) = Inr True"
proof -
  have a: "allocated ex_heap"
    by (simp add: allocated_def ex_heap_def)
  have l: "ledger_of ex_heap = ex_ledger"
    by (simp add: ledger_of_def ex_heap_def ex_ledger_def)
  have n: "store ex_heap_after 2 \<noteq> store ex_heap 2"
    by (simp add: ex_heap_after_def ex_heap_def ex_entry_data_def)
  have b: "(0::nat) < next_addr ex_heap" "(1::nat) < next_addr ex_heap"
    by (simp_all add: ex_heap_def)
  from verify_integrity_frame [OF a ex_heap_verify] b
  have "chain_refs ex_heap_after = chain_refs ex_heap"
    "store ex_heap_after 0 = store ex_heap 0" "store ex_heap_after 1 = store ex_heap 1"
    "ledger_of ex_heap_after = ledger_of ex_heap"
    "Inr True = verify_integrity (ledger_of ex_heap)"
    by blast+
  then show ?thesis
    using a ex_heap_verify n l by simp
qed

text \<open>
  C10. Setting a field of \<open>chain[0]['point_data']\<close> leaves the stored hashes as they
  were and does not change what \<open>verify_integrity\<close> returns: where it returned True
  before, it returns True after, since the loop starts at index 1 and reads only the
  hash of entry 0.
\<close>

theorem genesis_tamper_unseen:
  assumes "tamper_point l 0 k v = Inr l'"
  shows "verify_integrity l' = verify_integrity l \<and>
         (verify_integrity l = Inr True \<longrightarrow> verify_integrity l' = Inr True) \<and>
         map (\<lambda>e. dict_get e ''hash'') (chain l') = map (\<lambda>e. dict_get e ''hash'') (chain l)"
proof -
  from assms obtain pd where
    pd: "dict_get (chain l ! 0) ''point_data'' = Inr (PDict pd)" "chain l \<noteq> []"
      "l' = l\<lparr>chain := list_update (chain l) 0
               (dict_set ''point_data'' (PDict (dict_set k v pd)) (chain l ! 0))\<rparr>"
    by (auto simp: tamper_point_def list_get_def split: sum.splits pyval.splits if_splits)
  let ?e = "dict_set ''point_data'' (PDict (dict_set k v pd)) (chain l ! 0)"
  have h: "dict_get ?e ''hash'' = dict_get (chain l ! 0) ''hash''"
    by (simp add: dict_get_dict_set)
  have "verify_integrity l' = verify_integrity l"
    by (simp add: verify_integrity_def pd(3) verify_from_update_0 [OF h])
  moreover have "map (\<lambda>e. dict_get e ''hash'') (chain l') = map (\<lambda>e. dict_get e ''hash'') (chain l)"
    using pd(2) h by (cases "chain l") (simp_all add: pd(3))
  ultimately show ?thesis by simp
qed

theorem genesis_tamper_unseen_witness:
  "tamper_point ex_ledger 0 ''description'' (PStr ''Nothing happened'') =
     Inr \<lparr>chain = [ex_genesis_tampered, ex_entry]\<rparr> \<and>
   ex_genesis_tampered \<noteq> ex_genesis \<and>
   verify_integrity ex_ledger = Inr True \<and>
   verify_integrity \<lparr>chain = [ex_genesis_tampered, ex_entry]\<rparr> = Inr True"
proof -
  have t: "tamper_point ex_ledger 0 ''description'' (PStr ''Nothing happened'') =
     Inr \<lparr>chain = [ex_genesis_tampered, ex_entry]\<rparr>"
    by (simp add: tamper_point_def ex_ledger_def list_get_def ex_genesis_tampered_def
        ex_genesis_def ex_genesis_data_def dict_get_Cons)
  have "ex_genesis_tampered \<noteq> ex_genesis"
    by (simp add: ex_genesis_tampered_def ex_genesis_def ex_genesis_data_def)
  then show ?thesis
    using genesis_tamper_unseen [OF t] t ex_verify by simp
qed

end
